theory Spec2Isabelle
  imports Complex_Main "HOL-Library.Word"
begin

section \<open>Colours and the pixel classifier\<close>

text \<open>
  A colour is the JavaScript array \<open>[R, G, B]\<close> of the source, modelled as a triple of
  integers. Distances are JavaScript numbers; on integer channels the sum of squares is an
  exact integer and \<open>Math.sqrt\<close> is strictly monotone on the integers that occur, so the
  distance is modelled as the real square root.
\<close>

type_synonym color = "int \<times> int \<times> int"

datatype error = TypeError | TraceError string

definition computeEuclideanDistance :: "color \<Rightarrow> color \<Rightarrow> real" where
  "computeEuclideanDistance a b =
     (case a of (a0, a1, a2) \<Rightarrow> case b of (b0, b1, b2) \<Rightarrow>
        sqrt (real_of_int (0 + (a0 - b0)\<^sup>2 + (a1 - b1)\<^sup>2 + (a2 - b2)\<^sup>2)))"

text \<open>
  The callback handed to \<open>palette.reduce\<close>: the current entry replaces the best one so
  far only when it is strictly closer.
\<close>

definition closer :: "color \<Rightarrow> color \<Rightarrow> color \<Rightarrow> color" where
  "closer color prev cur =
     (if computeEuclideanDistance cur color < computeEuclideanDistance prev color
      then cur else prev)"

text \<open>
  \<open>findClosestColor\<close> of the library file (\<open>src/unnamed/part_000\<close>). The palette argument
  is \<open>None\<close> for \<open>null\<close>/\<open>undefined\<close> (the test \<open>!palette\<close>). \<open>reduce\<close> without
  an initial value starts from the first element and folds over the rest.
\<close>

definition findClosestColor :: "color \<Rightarrow> color list option \<Rightarrow> color" where
  "findClosestColor color palette =
     (case palette of
        None \<Rightarrow> color
      | Some p \<Rightarrow>
          if length p = 0 then color
          else foldl (closer color) (hd p) (tl p))"

text \<open>
  \<open>findClosestColor\<close> of the route file (\<open>src/publish.js\<close>, lines 43-49): the same
  reduce with no guard. \<open>reduce\<close> on an empty array with no initial value throws a
  \<open>TypeError\<close>.
\<close>

definition findClosestColor_route :: "color \<Rightarrow> color list \<Rightarrow> error + color" where
  "findClosestColor_route color palette =
     (case palette of
        [] \<Rightarrow> Inl TypeError
      | p # ps \<Rightarrow> Inr (foldl (closer color) p ps))"

section \<open>Properties of the pixel classifier\<close>

lemma computeEuclideanDistance_less_iff:
  "computeEuclideanDistance (a0, a1, a2) c < computeEuclideanDistance (b0, b1, b2) c \<longleftrightarrow>
     (a0 - fst c)\<^sup>2 + (a1 - fst (snd c))\<^sup>2 + (a2 - snd (snd c))\<^sup>2
       < (b0 - fst c)\<^sup>2 + (b1 - fst (snd c))\<^sup>2 + (b2 - snd (snd c))\<^sup>2"
proof (cases c)
  case (fields c0 c1 c2)
  show ?thesis
    unfolding fields computeEuclideanDistance_def prod.case real_sqrt_less_iff of_int_less_iff
    by simp
qed

text \<open>An executable form of the callback, for evaluation on concrete colours.\<close>

lemma closer_code [code]:
  "closer c (p0, p1, p2) (q0, q1, q2) =
     (if (q0 - fst c)\<^sup>2 + (q1 - fst (snd c))\<^sup>2 + (q2 - snd (snd c))\<^sup>2
         < (p0 - fst c)\<^sup>2 + (p1 - fst (snd c))\<^sup>2 + (p2 - snd (snd c))\<^sup>2
      then (q0, q1, q2) else (p0, p1, p2))"
  by (simp add: closer_def computeEuclideanDistance_less_iff)

lemma foldl_closer_first_min:
  assumes P: "P = a # xs"
  shows "\<exists>i < length P.
      foldl (closer c) a xs = P ! i
    \<and> (\<forall>j < length P.
          \<not> computeEuclideanDistance (P ! j) c < computeEuclideanDistance (P ! i) c)
    \<and> (\<forall>j < i.
          computeEuclideanDistance (P ! i) c < computeEuclideanDistance (P ! j) c)"
  using P
proof (induction xs arbitrary: P rule: rev_induct)
  case Nil
  then show ?case by simp
next
  case (snoc x xs)
  define Q where "Q = a # xs"
  let ?d = "\<lambda>q. computeEuclideanDistance q c"
  from snoc.IH [OF Q_def] obtain i where i: "i < length Q"
    and res: "foldl (closer c) a xs = Q ! i"
    and least: "\<forall>j < length Q. \<not> ?d (Q ! j) < ?d (Q ! i)"
    and first: "\<forall>j < i. ?d (Q ! i) < ?d (Q ! j)"
    by blast
  have app: "P = Q @ [x]" using snoc.prems by (simp add: Q_def)
  have old: "(Q @ [x]) ! j = Q ! j" if "j < length Q" for j
    using that by (simp add: nth_append)
  have new: "(Q @ [x]) ! length Q = x" by simp
  have split: "j < length Q \<or> j = length Q" if "j < length (Q @ [x])" for j
    using that by fastforce
  have step: "foldl (closer c) a (xs @ [x]) = closer c (Q ! i) x"
    using res by simp
  show ?case
  proof (cases "?d x < ?d (Q ! i)")
    case True
    have r: "foldl (closer c) a (xs @ [x]) = (Q @ [x]) ! length Q"
      using True step by (simp add: closer_def)
    have l: "\<forall>j < length (Q @ [x]). \<not> ?d ((Q @ [x]) ! j) < ?d ((Q @ [x]) ! length Q)"
    proof (intro allI impI)
      fix j assume "j < length (Q @ [x])"
      then have "j < length Q \<or> j = length Q" by (rule split)
      then show "\<not> ?d ((Q @ [x]) ! j) < ?d ((Q @ [x]) ! length Q)"
      proof
        assume j: "j < length Q"
        then have "\<not> ?d (Q ! j) < ?d (Q ! i)" using least by blast
        with True have "\<not> ?d (Q ! j) < ?d x" by linarith
        then show ?thesis unfolding new old [OF j] .
      next
        assume "j = length Q"
        then show ?thesis by simp
      qed
    qed
    have f: "\<forall>j < length Q. ?d ((Q @ [x]) ! length Q) < ?d ((Q @ [x]) ! j)"
    proof (intro allI impI)
      fix j assume j: "j < length Q"
      then have "\<not> ?d (Q ! j) < ?d (Q ! i)" using least by blast
      with True have "?d x < ?d (Q ! j)" by linarith
      then show "?d ((Q @ [x]) ! length Q) < ?d ((Q @ [x]) ! j)"
        unfolding new old [OF j] .
    qed
    have "length Q < length (Q @ [x])" by simp
    with r l f show ?thesis unfolding app by blast
  next
    case False
    have r: "foldl (closer c) a (xs @ [x]) = (Q @ [x]) ! i"
      using False step by (simp add: closer_def old [OF i])
    have l: "\<forall>j < length (Q @ [x]). \<not> ?d ((Q @ [x]) ! j) < ?d ((Q @ [x]) ! i)"
    proof (intro allI impI)
      fix j assume "j < length (Q @ [x])"
      then have "j < length Q \<or> j = length Q" by (rule split)
      then show "\<not> ?d ((Q @ [x]) ! j) < ?d ((Q @ [x]) ! i)"
      proof
        assume j: "j < length Q"
        then have "\<not> ?d (Q ! j) < ?d (Q ! i)" using least by blast
        then show ?thesis unfolding old [OF j] old [OF i] .
      next
        assume j: "j = length Q"
        show ?thesis unfolding j new old [OF i] using False .
      qed
    qed
    have f: "\<forall>j < i. ?d ((Q @ [x]) ! i) < ?d ((Q @ [x]) ! j)"
    proof (intro allI impI)
      fix j assume j: "j < i"
      with i have jQ: "j < length Q" by linarith
      from first j have "?d (Q ! i) < ?d (Q ! j)" by blast
      then show "?d ((Q @ [x]) ! i) < ?d ((Q @ [x]) ! j)"
        unfolding old [OF jQ] old [OF i] .
    qed
    have "i < length (Q @ [x])" using i by simp
    with r l f show ?thesis unfolding app by blast
  qed
qed



text \<open>
  Claim C5. Classifying against an empty palette: the library's \<open>findClosestColor\<close>
  returns the colour unchanged, while the unguarded copy in the route file throws.
\<close>

theorem findClosestColor_route_empty:
  "findClosestColor_route c [] = Inl TypeError \<and> findClosestColor c (Some []) = c"
  by (simp add: findClosestColor_route_def findClosestColor_def)

section \<open>The outline transformer\<close>

text \<open>
  A JavaScript string is modelled as a \<open>string\<close>. The two regular expressions of the
  outline transformer, \<open>/fill="[^"]*"/g\<close> and \<open>/stroke="[^"]*"/g\<close>, have the shape
  \<open>pre[^"]*"\<close> for a literal \<open>pre\<close>: a match at a position is the literal, then
  everything up to and including the next double quote. \<open>stripPrefix\<close> matches the
  literal, \<open>afterQuote\<close> matches \<open>[^"]*"\<close>; both return the text after the match.
\<close>

fun stripPrefix :: "string \<Rightarrow> string \<Rightarrow> string option" where
  "stripPrefix [] s = Some s"
| "stripPrefix (p # ps) [] = None"
| "stripPrefix (p # ps) (c # cs) = (if p = c then stripPrefix ps cs else None)"

fun afterQuote :: "string \<Rightarrow> string option" where
  "afterQuote [] = None"
| "afterQuote (c # cs) = (if c = CHR 0x22 then Some cs else afterQuote cs)"

definition matchAttr :: "string \<Rightarrow> string \<Rightarrow> string option" where
  "matchAttr pre s = (case stripPrefix pre s of None \<Rightarrow> None | Some t \<Rightarrow> afterQuote t)"

lemma stripPrefix_length: "stripPrefix p s = Some t \<Longrightarrow> length t \<le> length s"
  by (induction p s rule: stripPrefix.induct) (auto split: if_splits)

lemma afterQuote_length: "afterQuote s = Some t \<Longrightarrow> length t < length s"
  by (induction s) (auto split: if_splits)

lemma matchAttr_length:
  assumes "matchAttr pre s = Some t"
  shows "length t < length s"
proof -
  from assms obtain u where u: "stripPrefix pre s = Some u" and t: "afterQuote u = Some t"
    unfolding matchAttr_def by (auto split: option.splits)
  from stripPrefix_length [OF u] afterQuote_length [OF t] show ?thesis by linarith
qed

text \<open>
  \<open>s.replace(/pre[^"]*"/g, rep)\<close>: scan from the left; at a position where the
  expression matches, emit \<open>rep\<close> and continue after the match, otherwise copy one
  character. The replacement strings of the source contain no \<open>$\<close> pattern.
\<close>

function replaceAll :: "string \<Rightarrow> string \<Rightarrow> string \<Rightarrow> string" where
  "replaceAll pre rep [] = []"
| "replaceAll pre rep (c # cs) =
     (case matchAttr pre (c # cs) of
        Some rest \<Rightarrow> rep @ replaceAll pre rep rest
      | None \<Rightarrow> c # replaceAll pre rep cs)"
  by pat_completeness auto
termination
  by (relation "measure (\<lambda>(pre, rep, s). length s)") (auto dest: matchAttr_length)

text \<open>
  The callback of \<open>createSvgOutline\<close> (one fragment), and the function itself, which
  maps it over the array.
\<close>

definition outlineSvg :: "string \<Rightarrow> string" where
  \<open>outlineSvg svg =
     replaceAll ''stroke="'' ''stroke="black" stroke-width="1"''
       (replaceAll ''fill="'' ''fill="none"'' svg)\<close>

definition createSvgOutline :: "string list \<Rightarrow> string list" where
  "createSvgOutline separatedColorSvgs = map outlineSvg separatedColorSvgs"











lemma matchAttr_head:
  "c \<noteq> p \<Longrightarrow> matchAttr (p # ps) (c # cs) = None"
  by (simp add: matchAttr_def)











section \<open>The fragment merger\<close>

text \<open>
  The numbers of the merge are JavaScript numbers: a finite value, \<open>Infinity\<close>,
  \<open>-Infinity\<close> or \<open>NaN\<close>. Finite values are kept exact (rationals); the rounding of
  binary64 arithmetic is not modelled. \<open>undefined\<close>, which arises when a \<open>viewBox\<close>
  has fewer than four fields, converts to \<open>NaN\<close> in every use the merge makes of it
  (\<open>Math.min\<close>, \<open>Math.max\<close>, \<open>+\<close>) and is modelled as \<open>NaN\<close>.
\<close>

datatype jsnum = NaN | NegInf | Fin rat | PosInf

text \<open>\<open>Math.min\<close>, \<open>Math.max\<close>, \<open>+\<close>, \<open>-\<close> and \<open>\<le>\<close> on JavaScript numbers.\<close>

fun js_min :: "jsnum \<Rightarrow> jsnum \<Rightarrow> jsnum" where
  "js_min NaN b = NaN"
| "js_min a NaN = NaN"
| "js_min NegInf b = NegInf"
| "js_min a NegInf = NegInf"
| "js_min PosInf b = b"
| "js_min a PosInf = a"
| "js_min (Fin a) (Fin b) = Fin (min a b)"

fun js_max :: "jsnum \<Rightarrow> jsnum \<Rightarrow> jsnum" where
  "js_max NaN b = NaN"
| "js_max a NaN = NaN"
| "js_max PosInf b = PosInf"
| "js_max a PosInf = PosInf"
| "js_max NegInf b = b"
| "js_max a NegInf = a"
| "js_max (Fin a) (Fin b) = Fin (max a b)"

fun js_add :: "jsnum \<Rightarrow> jsnum \<Rightarrow> jsnum" where
  "js_add NaN b = NaN"
| "js_add a NaN = NaN"
| "js_add PosInf NegInf = NaN"
| "js_add NegInf PosInf = NaN"
| "js_add PosInf b = PosInf"
| "js_add a PosInf = PosInf"
| "js_add NegInf b = NegInf"
| "js_add a NegInf = NegInf"
| "js_add (Fin a) (Fin b) = Fin (a + b)"

fun js_neg :: "jsnum \<Rightarrow> jsnum" where
  "js_neg NaN = NaN"
| "js_neg NegInf = PosInf"
| "js_neg PosInf = NegInf"
| "js_neg (Fin a) = Fin (- a)"

definition js_sub :: "jsnum \<Rightarrow> jsnum \<Rightarrow> jsnum" where
  "js_sub a b = js_add a (js_neg b)"


text \<open>
  \<open>parseFloat\<close> on the texts the merge hands to it. These are captures of the character
  classes \<open>[\d\s.-]\<close> and \<open>[\d.]\<close>, so only leading white space, a sign, digits and a
  fraction can occur; exponents and \<open>Infinity\<close> cannot. With no digit the result is
  \<open>NaN\<close>.
\<close>

definition isDigit :: "char \<Rightarrow> bool" where
  "isDigit c = (48 \<le> (of_char c :: nat) \<and> (of_char c :: nat) \<le> 57)"

definition isSpace :: "char \<Rightarrow> bool" where
  "isSpace c = (c \<in> set [CHR 0x09, CHR 0x0A, CHR 0x0B, CHR 0x0C, CHR 0x0D, CHR 0x20])"

definition digitsValue :: "string \<Rightarrow> nat" where
  "digitsValue ds = foldl (\<lambda>n c. 10 * n + (of_char c - 48)) 0 ds"

definition parseFloat :: "string \<Rightarrow> jsnum" where
  "parseFloat s =
     (let t = dropWhile isSpace s;
          neg = (t \<noteq> [] \<and> hd t = CHR ''-'');
          u = (if t \<noteq> [] \<and> (hd t = CHR ''-'' \<or> hd t = CHR ''+'') then tl t else t);
          ip = takeWhile isDigit u;
          v = dropWhile isDigit u;
          fp = (if v \<noteq> [] \<and> hd v = CHR ''.'' then takeWhile isDigit (tl v) else [])
      in if ip = [] \<and> fp = [] then NaN
         else Fin ((if neg then - 1 else 1)
                   * (of_nat (digitsValue ip) + of_nat (digitsValue fp) / 10 ^ length fp)))"

text \<open>\<open>s.split(" ")\<close>: every separator ends a field, so two adjacent spaces yield an empty field.\<close>

fun splitOn :: "char \<Rightarrow> string \<Rightarrow> string list" where
  "splitOn sep [] = [[]]"
| "splitOn sep (c # cs) =
     (if c = sep then [] # splitOn sep cs
      else (case splitOn sep cs of w # ws \<Rightarrow> (c # w) # ws | [] \<Rightarrow> [[c]]))"

text \<open>
  \<open>svg.match(/pre"([cls]+)"/)\<close> for a literal \<open>pre\<close> (which ends with the opening
  quote) and a character class that excludes the quote: at a position the expression
  matches when the literal is followed by a non-empty maximal run of class characters and
  then a quote; the capture is the run. \<open>match\<close> returns the leftmost match.
\<close>

definition matchCapture :: "string \<Rightarrow> (char \<Rightarrow> bool) \<Rightarrow> string \<Rightarrow> string option" where
  "matchCapture pre cls s =
     (case stripPrefix pre s of
        None \<Rightarrow> None
      | Some t \<Rightarrow>
          if takeWhile cls t \<noteq> [] \<and> stripPrefix [CHR 0x22] (dropWhile cls t) \<noteq> None
          then Some (takeWhile cls t) else None)"

fun searchCapture :: "string \<Rightarrow> (char \<Rightarrow> bool) \<Rightarrow> string \<Rightarrow> string option" where
  "searchCapture pre cls [] = None"
| "searchCapture pre cls (c # cs) =
     (case matchCapture pre cls (c # cs) of
        Some cap \<Rightarrow> Some cap
      | None \<Rightarrow> searchCapture pre cls cs)"

definition viewBoxClass :: "char \<Rightarrow> bool" where
  "viewBoxClass c = (isDigit c \<or> isSpace c \<or> c = CHR ''.'' \<or> c = CHR ''-'')"

definition sizeClass :: "char \<Rightarrow> bool" where
  "sizeClass c = (isDigit c \<or> c = CHR ''.'')"


text \<open>
  \<open>svg.match(/<svg[^>]*>([\s\S]*?)<\/svg>/)\<close>: the literal \<open><svg\<close>, everything up to the
  next \<open>>\<close>, then the shortest text that is followed by \<open></svg>\<close>, which is captured.
\<close>

fun afterGt :: "string \<Rightarrow> string option" where
  "afterGt [] = None"
| "afterGt (c # cs) = (if c = CHR ''>'' then Some cs else afterGt cs)"

fun untilLit :: "string \<Rightarrow> string \<Rightarrow> string option" where
  "untilLit lit [] = (if lit = [] then Some [] else None)"
| "untilLit lit (c # cs) =
     (case stripPrefix lit (c # cs) of
        Some rest \<Rightarrow> Some []
      | None \<Rightarrow> map_option ((#) c) (untilLit lit cs))"

definition matchContent :: "string \<Rightarrow> string option" where
  "matchContent s =
     (case stripPrefix ''<svg'' s of
        None \<Rightarrow> None
      | Some t \<Rightarrow> (case afterGt t of None \<Rightarrow> None | Some u \<Rightarrow> untilLit ''</svg>'' u))"

fun searchContent :: "string \<Rightarrow> string option" where
  "searchContent [] = None"
| "searchContent (c # cs) =
     (case matchContent (c # cs) of
        Some inner \<Rightarrow> Some inner
      | None \<Rightarrow> searchContent cs)"

text \<open>\<open>.join("\n")\<close>.\<close>

fun joinLines :: "string list \<Rightarrow> string" where
  "joinLines [] = []"
| "joinLines [a] = a"
| "joinLines (a # b # r) = a @ [CHR 0x0A] @ joinLines (b # r)"

text \<open>
  The coordinate frame read from one fragment (the variables \<open>contentMinX\<close>,
  \<open>contentMinY\<close>, \<open>contentWidth\<close>, \<open>contentHeight\<close> of the callback), and the merged
  document. The source returns the document as text: the header
  \<open><svg ... viewBox="minX minY finalWidth finalHeight" width="finalWidth" height="finalHeight">\<close>
  with the four numbers printed, a newline, the merged content, a newline and \<open></svg>\<close>.
  The record keeps the numbers and the content that this text is built from.
\<close>

record frame =
  contentMinX :: jsnum
  contentMinY :: jsnum
  contentWidth :: jsnum
  contentHeight :: jsnum

record document =
  docMinX :: jsnum
  docMinY :: jsnum
  finalWidth :: jsnum
  finalHeight :: jsnum
  mergedSvgContent :: string

text \<open>Array destructuring: a missing element is \<open>undefined\<close>.\<close>

definition element :: "jsnum list \<Rightarrow> nat \<Rightarrow> jsnum" where
  "element xs i = (if i < length xs then xs ! i else NaN)"

definition contentFrame :: "string \<Rightarrow> frame" where
  \<open>contentFrame svg =
     (case searchCapture ''viewBox="'' viewBoxClass svg of
        Some viewBox \<Rightarrow>
          (let nums = map parseFloat (splitOn CHR '' '' viewBox)
           in \<lparr>contentMinX = element nums 0, contentMinY = element nums 1,
               contentWidth = element nums 2, contentHeight = element nums 3\<rparr>)
      | None \<Rightarrow>
          (case searchCapture ''width="'' sizeClass svg of
             None \<Rightarrow> \<lparr>contentMinX = Fin 0, contentMinY = Fin 0,
                       contentWidth = Fin 0, contentHeight = Fin 0\<rparr>
           | Some w \<Rightarrow>
               (case searchCapture ''height="'' sizeClass svg of
                  None \<Rightarrow> \<lparr>contentMinX = Fin 0, contentMinY = Fin 0,
                            contentWidth = Fin 0, contentHeight = Fin 0\<rparr>
                | Some h \<Rightarrow> \<lparr>contentMinX = Fin 0, contentMinY = Fin 0,
                              contentWidth = parseFloat w, contentHeight = parseFloat h\<rparr>)))\<close>

definition svgContent :: "string \<Rightarrow> string" where
  "svgContent svg = (case searchContent svg of Some inner \<Rightarrow> inner | None \<Rightarrow> [])"

type_synonym bounds = "jsnum \<times> jsnum \<times> jsnum \<times> jsnum"

text \<open>
  One round of the \<open>map\<close> callback on the accumulators \<open>minX\<close>, \<open>minY\<close>, \<open>maxX\<close>,
  \<open>maxY\<close>, and the merge itself, which starts them at \<open>Infinity\<close> and \<open>-Infinity\<close>.
\<close>

definition accumulate :: "bounds \<Rightarrow> string \<Rightarrow> bounds" where
  "accumulate b svg =
     (case b of (minX, minY, maxX, maxY) \<Rightarrow>
        let f = contentFrame svg
        in (js_min minX (contentMinX f),
            js_min minY (contentMinY f),
            js_max maxX (js_add (contentMinX f) (contentWidth f)),
            js_max maxY (js_add (contentMinY f) (contentHeight f))))"

definition mergeSvgs :: "string list \<Rightarrow> document" where
  "mergeSvgs svgs =
     (case foldl accumulate (PosInf, PosInf, NegInf, NegInf) svgs of
        (minX, minY, maxX, maxY) \<Rightarrow>
          \<lparr>docMinX = minX, docMinY = minY,
           finalWidth = js_sub maxX minX, finalHeight = js_sub maxY minY,
           mergedSvgContent = joinLines (map svgContent svgs)\<rparr>)"

section \<open>Properties of the fragment merger\<close>















text \<open>
  Claim C1, as amended. Merging no fragments gives a document with empty content whose
  bounds are the untouched accumulators: \<open>minX = minY = Infinity\<close> and
  \<open>width = height = -Infinity - Infinity = -Infinity\<close>. There is no case for the empty
  array.
\<close>

theorem mergeSvgs_empty:
  "mergeSvgs [] = \<lparr>docMinX = PosInf, docMinY = PosInf, finalWidth = NegInf,
                    finalHeight = NegInf, mergedSvgContent = []\<rparr>"
  by (simp add: mergeSvgs_def js_sub_def)

text \<open>
  Claim C1 as stated, that merging no fragments gives the zero frame \<open>{0, 0, 0, 0}\<close> with
  no infinity in its bounds, fails.
\<close>

theorem mergeSvgs_empty_not_zero:
  "mergeSvgs [] \<noteq> \<lparr>docMinX = Fin 0, docMinY = Fin 0, finalWidth = Fin 0,
                     finalHeight = Fin 0, mergedSvgContent = []\<rparr>
   \<and> docMinX (mergeSvgs []) = PosInf \<and> docMinY (mergeSvgs []) = PosInf
   \<and> finalWidth (mergeSvgs []) = NegInf \<and> finalHeight (mergeSvgs []) = NegInf"
  by (simp add: mergeSvgs_def js_sub_def)

section \<open>Bitmaps and the pixel passes\<close>

text \<open>
  A Jimp image carries \<open>bitmap.width\<close>, \<open>bitmap.height\<close> and \<open>bitmap.data\<close>, a byte
  buffer with four bytes (R, G, B, A) per pixel. A byte is an \<open>8 word\<close>: reading gives
  a number in 0..255, and storing an integer keeps it modulo 256, as a write into a
  \<open>Uint8Array\<close> does. A write past the end of the buffer is ignored, as
  \<open>list_update\<close> does. Jimp keeps \<open>data.length = 4 * width * height\<close>; the theorems
  below assume it, so that every read of a scan is in range.
\<close>

type_synonym byte = "8 word"

record bitmap =
  width :: nat
  height :: nat
  data :: "byte list"

text \<open>
  Jimp's \<open>scan(0, 0, width, height, f)\<close> (library code): for every row \<open>y\<close> and every
  column \<open>x\<close> in row-major order it calls \<open>f(x, y, idx)\<close> with
  \<open>idx = (width * y + x) << 2\<close>. The callbacks of the source use \<open>idx\<close> and the buffer
  only.
\<close>

definition scanIndices :: "nat \<Rightarrow> nat \<Rightarrow> nat list" where
  "scanIndices w h = concat (map (\<lambda>y. map (\<lambda>x. 4 * (w * y + x)) [0..<w]) [0..<h])"

definition scan :: "bitmap \<Rightarrow> (nat \<Rightarrow> byte list \<Rightarrow> byte list) \<Rightarrow> bitmap" where
  "scan img f =
     img\<lparr>data := foldl (\<lambda>d idx. f idx d) (data img)
                     (scanIndices (width img) (height img))\<rparr>"

text \<open>The callback of \<open>processImage\<close>: the pixel becomes its closest palette colour.\<close>

definition processImage_cb :: "color list option \<Rightarrow> nat \<Rightarrow> byte list \<Rightarrow> byte list" where
  "processImage_cb colorPalette idx d =
     (let red = uint (d ! idx); green = uint (d ! (idx + 1)); blue = uint (d ! (idx + 2));
          closestColor = findClosestColor (red, green, blue) colorPalette
      in d[idx := word_of_int (fst closestColor),
           idx + 1 := word_of_int (fst (snd closestColor)),
           idx + 2 := word_of_int (snd (snd closestColor))])"

text \<open>
  Images are objects: \<open>processImage\<close> scans the image it is given in place and returns
  that same image, and \<open>clone\<close> makes a new one. The heap maps a reference to the
  bitmap it holds; \<open>lim\<close> is the next unused reference.
\<close>

record heap =
  objs :: "nat \<Rightarrow> bitmap"
  lim :: nat

definition clone :: "nat \<Rightarrow> heap \<Rightarrow> nat \<times> heap" where
  "clone r h = (lim h, h\<lparr>objs := (objs h)(lim h := objs h r), lim := Suc (lim h)\<rparr>)"

definition processImage :: "nat \<Rightarrow> color list option \<Rightarrow> heap \<Rightarrow> nat \<times> heap" where
  "processImage r colorPalette h =
     (r, h\<lparr>objs := (objs h)(r := scan (objs h r) (processImage_cb colorPalette))\<rparr>)"

text \<open>
  \<open>separateColors\<close>: for each palette colour, a clone of the image is scanned; a pixel that
  differs from the colour in some channel (\<open>!==\<close>) is set to white. The clone is private
  to the callback, so the result is a function of the bitmap's value. The source returns
  each layer PNG-encoded as a data URI (library code); the model returns the bitmap that
  is encoded.
\<close>

definition separateColors_cb :: "color \<Rightarrow> nat \<Rightarrow> byte list \<Rightarrow> byte list" where
  "separateColors_cb color idx d =
     (let red = uint (d ! idx); green = uint (d ! (idx + 1)); blue = uint (d ! (idx + 2))
      in if red \<noteq> fst color \<or> green \<noteq> fst (snd color) \<or> blue \<noteq> snd (snd color)
         then d[idx := word_of_int 255, idx + 1 := word_of_int 255, idx + 2 := word_of_int 255]
         else d)"

definition separateColors :: "bitmap \<Rightarrow> color list \<Rightarrow> bitmap list" where
  "separateColors img colorPalette =
     map (\<lambda>color. scan img (separateColors_cb color)) colorPalette"

text \<open>
  \<open>parseInt(s, 16)\<close>: leading white space, an optional sign, an optional \<open>0x\<close>, then the
  longest run of hexadecimal digits; \<open>None\<close> is \<open>NaN\<close> (no digit).
\<close>

definition isHexDigit :: "char \<Rightarrow> bool" where
  "isHexDigit c =
     (let n = (of_char c :: nat)
      in (48 \<le> n \<and> n \<le> 57) \<or> (97 \<le> n \<and> n \<le> 102) \<or> (65 \<le> n \<and> n \<le> 70))"

definition hexValue :: "char \<Rightarrow> nat" where
  "hexValue c =
     (let n = (of_char c :: nat)
      in if n \<le> 57 then n - 48 else if 97 \<le> n then n - 87 else n - 55)"

definition parseInt16 :: "string \<Rightarrow> int option" where
  "parseInt16 s =
     (let t = dropWhile isSpace s;
          neg = (t \<noteq> [] \<and> hd t = CHR ''-'');
          u = (if t \<noteq> [] \<and> (hd t = CHR ''-'' \<or> hd t = CHR ''+'') then tl t else t);
          v = (if take 2 u = ''0x'' \<or> take 2 u = ''0X'' then drop 2 u else u);
          ds = takeWhile isHexDigit v
      in if ds = [] then None
         else Some ((if neg then - 1 else 1)
                    * int (foldl (\<lambda>n c. 16 * n + hexValue c) 0 ds)))"

text \<open>
  \<open>Math.round(0.3 * r + 0.59 * g + 0.11 * b)\<close> on integers, in exact arithmetic:
  \<open>Math.round\<close> rounds a half upwards. The rounding of the binary64 products is not
  modelled; the theorems below use no property of the grey value beyond its being a
  function of the three channels.
\<close>

definition greyOf :: "int \<Rightarrow> int \<Rightarrow> int \<Rightarrow> int" where
  "greyOf r g b = (30 * r + 59 * g + 11 * b + 50) div 100"

definition greyHexToNumber :: "string \<Rightarrow> int option" where
  "greyHexToNumber hexString =
     (case parseInt16 (take 2 (drop 1 hexString)) of
        None \<Rightarrow> None
      | Some r \<Rightarrow>
          (case parseInt16 (take 2 (drop 3 hexString)) of
             None \<Rightarrow> None
           | Some g \<Rightarrow>
               (case parseInt16 (take 2 (drop 5 hexString)) of
                  None \<Rightarrow> None
                | Some b \<Rightarrow> Some (greyOf r g b))))"

definition TOLERANCE :: int where
  "TOLERANCE = 5"

text \<open>
  \<open>separateGreyscaleColors\<close>: for each grey of the palette, a clone is scanned; a pixel
  whose grey value is within \<open>TOLERANCE\<close> of the target takes the target in all three
  channels, any other pixel becomes white. With a target that is \<open>NaN\<close> the comparison
  is false.
\<close>

definition separateGreyscaleColors_cb :: "int option \<Rightarrow> nat \<Rightarrow> byte list \<Rightarrow> byte list" where
  "separateGreyscaleColors_cb targetGrey idx d =
     (let red = uint (d ! idx); green = uint (d ! (idx + 1)); blue = uint (d ! (idx + 2));
          grey = greyOf red green blue
      in case targetGrey of
           Some t \<Rightarrow>
             if \<bar>grey - t\<bar> \<le> TOLERANCE
             then d[idx := word_of_int t, idx + 1 := word_of_int t, idx + 2 := word_of_int t]
             else d[idx := word_of_int 255, idx + 1 := word_of_int 255, idx + 2 := word_of_int 255]
         | None \<Rightarrow>
             d[idx := word_of_int 255, idx + 1 := word_of_int 255, idx + 2 := word_of_int 255])"

definition separateGreyscaleColors :: "bitmap \<Rightarrow> string list \<Rightarrow> bitmap list" where
  "separateGreyscaleColors img greyscalePalette =
     map (\<lambda>greyHex. scan img (separateGreyscaleColors_cb (greyHexToNumber greyHex)))
       greyscalePalette"

text \<open>
  \<open>rgbToHex\<close>: each channel is rounded (the identity on integers), printed in base 16
  and padded to two characters.
\<close>

definition hexDigitChar :: "nat \<Rightarrow> char" where
  "hexDigitChar n = (if n < 10 then char_of (48 + n) else char_of (87 + n))"

fun toString16 :: "nat \<Rightarrow> string" where
  "toString16 n =
     (if n < 16 then [hexDigitChar n] else toString16 (n div 16) @ [hexDigitChar (n mod 16)])"

definition numberToString16 :: "int \<Rightarrow> string" where
  "numberToString16 x = (if x < 0 then CHR ''-'' # toString16 (nat (- x)) else toString16 (nat x))"

definition padStart2 :: "string \<Rightarrow> string" where
  "padStart2 s = replicate (2 - length s) CHR ''0'' @ s"

definition rgbToHex :: "color \<Rightarrow> string" where
  "rgbToHex rgb =
     (case rgb of (r, g, b) \<Rightarrow>
        ''#'' @ padStart2 (numberToString16 r) @ padStart2 (numberToString16 g)
              @ padStart2 (numberToString16 b))"

text \<open>
  \<open>extractGreyscalePalette\<close>: a scan that reads only; the \<open>Set\<close> keeps each grey once,
  in the order of first insertion.
\<close>

definition extractGreyscalePalette :: "bitmap \<Rightarrow> string list" where
  "extractGreyscalePalette img =
     foldl (\<lambda>greyscalePalette idx.
              let red = uint (data img ! idx); green = uint (data img ! (idx + 1));
                  blue = uint (data img ! (idx + 2));
                  grey = greyOf red green blue;
                  greyHex = rgbToHex (grey, grey, grey)
              in if greyHex \<in> set greyscalePalette then greyscalePalette
                 else greyscalePalette @ [greyHex])
       [] (scanIndices (width img) (height img))"

text \<open>
  Steps 3 to 6 of \<open>vectori\<close> in the library file (\<open>src/unnamed/part_000\<close>, lines
  452-468): \<open>processImage(image, colorPaletteValues)\<close>, the greyscale version of
  \<open>image\<close>, its palette, and the two separations of \<open>image\<close>. Jimp's \<open>greyscale\<close> is
  library code and a parameter here; PNG encoding and decoding are taken to keep the
  pixels. The record holds the bitmap that is encoded as the colour image, the bitmap that
  the greyscale conversion clones, and the two lists of layers.
\<close>

record stages =
  colorImage :: bitmap
  greyscaleSource :: bitmap
  separatedColorImages :: "bitmap list"
  separatedGreyscaleImages :: "bitmap list"

definition vectori_stages ::
    "(bitmap \<Rightarrow> bitmap) \<Rightarrow> nat \<Rightarrow> color list \<Rightarrow> heap \<Rightarrow> stages \<times> heap" where
  "vectori_stages greyscale img colorPaletteValues h0 =
     (case processImage img (Some colorPaletteValues) h0 of
        (processedImage, h1) \<Rightarrow>
          let greyscalePalette = extractGreyscalePalette (greyscale (objs h1 img))
          in (\<lparr>colorImage = objs h1 processedImage,
               greyscaleSource = objs h1 img,
               separatedColorImages = separateColors (objs h1 img) colorPaletteValues,
               separatedGreyscaleImages = separateGreyscaleColors (objs h1 img) greyscalePalette\<rparr>,
              h1))"

text \<open>
  The same steps in the second copy (\<open>src/lib/vectori.js\<close>, in the same file from line
  866): \<open>processImage(image.clone(), colorPaletteValues)\<close>.
\<close>

definition vectori_lib_stages ::
    "(bitmap \<Rightarrow> bitmap) \<Rightarrow> nat \<Rightarrow> color list \<Rightarrow> heap \<Rightarrow> stages \<times> heap" where
  "vectori_lib_stages greyscale img colorPaletteValues h0 =
     (case clone img h0 of
        (copy, h1) \<Rightarrow>
          (case processImage copy (Some colorPaletteValues) h1 of
             (processedImage, h2) \<Rightarrow>
               let greyscalePalette = extractGreyscalePalette (greyscale (objs h2 img))
               in (\<lparr>colorImage = objs h2 processedImage,
                    greyscaleSource = objs h2 img,
                    separatedColorImages = separateColors (objs h2 img) colorPaletteValues,
                    separatedGreyscaleImages =
                      separateGreyscaleColors (objs h2 img) greyscalePalette\<rparr>,
                   h2)))"

text \<open>Reading a bitmap: the colour and the alpha byte of pixel \<open>p\<close> (row-major).\<close>

definition pixel :: "bitmap \<Rightarrow> nat \<Rightarrow> color" where
  "pixel img p =
     (uint (data img ! (4 * p)), uint (data img ! (4 * p + 1)), uint (data img ! (4 * p + 2)))"

definition alpha :: "bitmap \<Rightarrow> nat \<Rightarrow> byte" where
  "alpha img p = data img ! (4 * p + 3)"

definition wellFormed :: "bitmap \<Rightarrow> bool" where
  "wellFormed img = (length (data img) = 4 * width img * height img)"

text \<open>A two-pixel image, and a heap that holds it, for the concrete instances below.\<close>

definition source0 :: bitmap where
  "source0 = \<lparr>width = 2, height = 1, data = [10, 20, 30, 255, 200, 200, 200, 128]\<rparr>"

definition heap0 :: heap where
  "heap0 = \<lparr>objs = (\<lambda>r. source0), lim = 1\<rparr>"

section \<open>Properties of the pixel passes\<close>

text \<open>
  Every callback of the source reads the three colour bytes at \<open>idx\<close> and stores three
  bytes there (or none, which is storing what was read): it is \<open>pixelOp g\<close> for a
  function \<open>g\<close> on the three bytes.
\<close>

definition pixelOp :: "(byte \<times> byte \<times> byte \<Rightarrow> byte \<times> byte \<times> byte) \<Rightarrow> nat \<Rightarrow> byte list \<Rightarrow> byte list" where
  "pixelOp g idx d =
     (case g (d ! idx, d ! (idx + 1), d ! (idx + 2)) of
        (a, b, c) \<Rightarrow> d[idx := a, idx + 1 := b, idx + 2 := c])"

definition newByte :: "(byte \<times> byte \<times> byte \<Rightarrow> byte \<times> byte \<times> byte) \<Rightarrow> byte list \<Rightarrow> nat \<Rightarrow> byte" where
  "newByte g d j =
     (case g (d ! (4 * (j div 4)), d ! (4 * (j div 4) + 1), d ! (4 * (j div 4) + 2)) of
        (a, b, c) \<Rightarrow>
          if j mod 4 = 0 then a else if j mod 4 = 1 then b else if j mod 4 = 2 then c else d ! j)"

lemma scanIndices_eq: "scanIndices w h = map (\<lambda>p. 4 * p) [0..<w * h]"
proof (induction h)
  case 0
  show ?case by (simp add: scanIndices_def)
next
  case (Suc h)
  have row: "map (\<lambda>x. 4 * (w * h + x)) [0..<w] = map (\<lambda>p. 4 * p) [w * h..<w * h + w]"
    by (simp add: map_add_upt [symmetric] add.commute)
  have "[0..<w * Suc h] = [0..<w * h] @ [w * h..<w * h + w]"
    using upt_add_eq_append [of 0 "w * h" w] by (simp add: add.commute)
  with Suc row show ?case
    by (simp add: scanIndices_def)
qed

lemma foldl_pixelOp:
  assumes "4 * n \<le> length d0"
  shows "foldl (\<lambda>d idx. pixelOp g idx d) d0 (map (\<lambda>p. 4 * p) [0..<n])
         = map (\<lambda>j. if j < 4 * n then newByte g d0 j else d0 ! j) [0..<length d0]"
  using assms
proof (induction n)
  case 0
  show ?case by (simp add: map_nth)
next
  case (Suc n)
  let ?d = "map (\<lambda>j. if j < 4 * n then newByte g d0 j else d0 ! j) [0..<length d0]"
  from Suc.prems have len: "4 * n + 3 < length d0" by simp
  from Suc have IH: "foldl (\<lambda>d idx. pixelOp g idx d) d0 (map (\<lambda>p. 4 * p) [0..<n]) = ?d"
    by simp
  obtain a b c where g: "g (d0 ! (4 * n), d0 ! (4 * n + 1), d0 ! (4 * n + 2)) = (a, b, c)"
    by (cases "g (d0 ! (4 * n), d0 ! (4 * n + 1), d0 ! (4 * n + 2))") auto
  have rd: "?d ! (4 * n) = d0 ! (4 * n)" "?d ! (4 * n + 1) = d0 ! (4 * n + 1)"
    "?d ! (4 * n + 2) = d0 ! (4 * n + 2)"
    using len by simp_all
  have step: "pixelOp g (4 * n) ?d = ?d[4 * n := a, 4 * n + 1 := b, 4 * n + 2 := c]"
    unfolding pixelOp_def rd g by simp
  have "?d[4 * n := a, 4 * n + 1 := b, 4 * n + 2 := c]
        = map (\<lambda>j. if j < 4 * Suc n then newByte g d0 j else d0 ! j) [0..<length d0]"
  proof (rule nth_equalityI)
    show "length (?d[4 * n := a, 4 * n + 1 := b, 4 * n + 2 := c])
          = length (map (\<lambda>j. if j < 4 * Suc n then newByte g d0 j else d0 ! j) [0..<length d0])"
      by simp
  next
    fix j assume "j < length (?d[4 * n := a, 4 * n + 1 := b, 4 * n + 2 := c])"
    then have j: "j < length d0" by simp
    consider "j < 4 * n" | "j = 4 * n" | "j = 4 * n + 1" | "j = 4 * n + 2" | "j = 4 * n + 3"
      | "j \<ge> 4 * n + 4" by linarith
    then show "?d[4 * n := a, 4 * n + 1 := b, 4 * n + 2 := c] ! j
               = map (\<lambda>j. if j < 4 * Suc n then newByte g d0 j else d0 ! j) [0..<length d0] ! j"
    proof cases
      case 1
      with j show ?thesis by simp
    next
      case 2
      with j len g show ?thesis by (simp add: newByte_def)
    next
      case 3
      have "(4 * n + 1) div 4 = n" "(4 * n + 1) mod 4 = 1" by presburger+
      with 3 j len g show ?thesis by (simp add: newByte_def)
    next
      case 4
      have "(4 * n + 2) div 4 = n" "(4 * n + 2) mod 4 = 2" by presburger+
      with 4 j len g show ?thesis by (simp add: newByte_def)
    next
      case 5
      have "(4 * n + 3) div 4 = n" "(4 * n + 3) mod 4 = 3" by presburger+
      with 5 j len g show ?thesis by (simp add: newByte_def split: prod.splits)
    next
      case 6
      with j show ?thesis by simp
    qed
  qed
  with IH step show ?case by simp
qed

lemma scan_pixelOp:
  assumes "wellFormed img"
  shows "scan img (pixelOp g)
         = img\<lparr>data := map (\<lambda>j. newByte g (data img) j) [0..<length (data img)]\<rparr>"
proof -
  from assms have len: "length (data img) = 4 * (width img * height img)"
    by (simp add: wellFormed_def)
  then have le: "4 * (width img * height img) \<le> length (data img)" by simp
  have "map (\<lambda>j. if j < 4 * (width img * height img) then newByte g (data img) j else data img ! j)
          [0..<length (data img)]
        = map (\<lambda>j. newByte g (data img) j) [0..<length (data img)]"
    using len by simp
  with foldl_pixelOp [OF le, of g] show ?thesis
    by (simp add: scan_def scanIndices_eq)
qed

lemma scan_pixelOp_pixel:
  assumes wf: "wellFormed img" and p: "p < width img * height img"
  shows "width (scan img (pixelOp g)) = width img"
    and "height (scan img (pixelOp g)) = height img"
    and "length (data (scan img (pixelOp g))) = length (data img)"
    and "(data (scan img (pixelOp g)) ! (4 * p),
          data (scan img (pixelOp g)) ! (4 * p + 1),
          data (scan img (pixelOp g)) ! (4 * p + 2))
         = g (data img ! (4 * p), data img ! (4 * p + 1), data img ! (4 * p + 2))"
    and "alpha (scan img (pixelOp g)) p = alpha img p"
proof -
  from wf p have len: "4 * p + 3 < length (data img)"
    by (simp add: wellFormed_def)
  have dm: "(4 * p) div 4 = p" "(4 * p) mod 4 = 0" "(4 * p + 1) div 4 = p" "(4 * p + 1) mod 4 = 1"
    "(4 * p + 2) div 4 = p" "(4 * p + 2) mod 4 = 2" "(4 * p + 3) div 4 = p" "(4 * p + 3) mod 4 = 3"
    by presburger+
  obtain a b c where g: "g (data img ! (4 * p), data img ! (4 * p + 1), data img ! (4 * p + 2)) = (a, b, c)"
    by (cases "g (data img ! (4 * p), data img ! (4 * p + 1), data img ! (4 * p + 2))") auto
  have n0: "newByte g (data img) (4 * p) = a"
    unfolding newByte_def dm g by simp
  have n1: "newByte g (data img) (4 * p + 1) = b"
    unfolding newByte_def dm g by simp
  have n2: "newByte g (data img) (4 * p + 2) = c"
    unfolding newByte_def dm g by simp
  have n3: "newByte g (data img) (4 * p + 3) = data img ! (4 * p + 3)"
    unfolding newByte_def dm g by simp
  have i0: "4 * p < length (data img)" and i1: "4 * p + 1 < length (data img)"
    and i2: "4 * p + 2 < length (data img)" using len by simp_all
  show "width (scan img (pixelOp g)) = width img"
    and "height (scan img (pixelOp g)) = height img"
    and "length (data (scan img (pixelOp g))) = length (data img)"
    unfolding scan_pixelOp [OF wf] by simp_all
  show "(data (scan img (pixelOp g)) ! (4 * p),
          data (scan img (pixelOp g)) ! (4 * p + 1),
          data (scan img (pixelOp g)) ! (4 * p + 2))
         = g (data img ! (4 * p), data img ! (4 * p + 1), data img ! (4 * p + 2))"
    unfolding scan_pixelOp [OF wf] g using i0 i1 i2 n0 n1 n2
    by (simp del: upt_Suc)
  show "alpha (scan img (pixelOp g)) p = alpha img p"
    unfolding scan_pixelOp [OF wf] alpha_def using len n3 by simp
qed

text \<open>The three callbacks as functions of the pixel's colour bytes.\<close>

definition quantizePixel :: "color list option \<Rightarrow> byte \<times> byte \<times> byte \<Rightarrow> byte \<times> byte \<times> byte" where
  "quantizePixel colorPalette t =
     (case t of (r, g, b) \<Rightarrow>
        let closestColor = findClosestColor (uint r, uint g, uint b) colorPalette
        in (word_of_int (fst closestColor), word_of_int (fst (snd closestColor)),
            word_of_int (snd (snd closestColor))))"

definition separatePixel :: "color \<Rightarrow> byte \<times> byte \<times> byte \<Rightarrow> byte \<times> byte \<times> byte" where
  "separatePixel color t =
     (case t of (r, g, b) \<Rightarrow>
        if uint r \<noteq> fst color \<or> uint g \<noteq> fst (snd color) \<or> uint b \<noteq> snd (snd color)
        then (word_of_int 255, word_of_int 255, word_of_int 255) else (r, g, b))"

definition bandPixel :: "int option \<Rightarrow> byte \<times> byte \<times> byte \<Rightarrow> byte \<times> byte \<times> byte" where
  "bandPixel targetGrey t =
     (case t of (r, g, b) \<Rightarrow>
        (case targetGrey of
           Some tg \<Rightarrow>
             if \<bar>greyOf (uint r) (uint g) (uint b) - tg\<bar> \<le> TOLERANCE
             then (word_of_int tg, word_of_int tg, word_of_int tg)
             else (word_of_int 255, word_of_int 255, word_of_int 255)
         | None \<Rightarrow> (word_of_int 255, word_of_int 255, word_of_int 255)))"

lemma processImage_cb_pixelOp: "processImage_cb colorPalette = pixelOp (quantizePixel colorPalette)"
  by (intro ext) (simp add: processImage_cb_def pixelOp_def quantizePixel_def Let_def)

lemma separateColors_cb_pixelOp: "separateColors_cb color = pixelOp (separatePixel color)"
  by (intro ext) (simp add: separateColors_cb_def pixelOp_def separatePixel_def Let_def)

lemma separateGreyscaleColors_cb_pixelOp:
  "separateGreyscaleColors_cb targetGrey = pixelOp (bandPixel targetGrey)"
  by (intro ext)
     (simp add: separateGreyscaleColors_cb_def pixelOp_def bandPixel_def Let_def
           split: option.splits)

lemma pixel_scan:
  assumes "wellFormed img" and "p < width img * height img"
    and "g (data img ! (4 * p), data img ! (4 * p + 1), data img ! (4 * p + 2)) = (a, b, c)"
  shows "pixel (scan img (pixelOp g)) p = (uint a, uint b, uint c)"
  using scan_pixelOp_pixel(4) [OF assms(1,2), of g] assms(3)
  by (simp add: pixel_def)

lemma uint_255: "uint (word_of_int 255 :: byte) = 255"
  by simp

lemma uint_byte: "0 \<le> t \<Longrightarrow> t \<le> 255 \<Longrightarrow> uint (word_of_int t :: byte) = t"
  by (simp add: uint_word_of_int take_bit_int_eq_self)

lemma separateColors_pixel:
  assumes wf: "wellFormed B" and i: "i < length P" and p: "p < width B * height B"
  shows "pixel (separateColors B P ! i) p
           = (if pixel B p = P ! i then pixel B p else (255, 255, 255))"
proof -
  have layer: "separateColors B P ! i = scan B (pixelOp (separatePixel (P ! i)))"
    using i by (simp add: separateColors_def separateColors_cb_pixelOp)
  obtain a b c where g: "separatePixel (P ! i)
      (data B ! (4 * p), data B ! (4 * p + 1), data B ! (4 * p + 2)) = (a, b, c)"
    by (metis prod_cases3)
  obtain c0 c1 c2 where c: "P ! i = (c0, c1, c2)" by (metis prod_cases3)
  show ?thesis
    unfolding layer pixel_scan [where g = "separatePixel (P ! i)", OF wf p g]
    using g by (auto simp: separatePixel_def pixel_def c split: if_splits)
qed

lemma findClosestColor_cases:
  "findClosestColor c (Some P) = c \<or> findClosestColor c (Some P) \<in> set P"
proof (cases P)
  case Nil
  then show ?thesis by (simp add: findClosestColor_def)
next
  case (Cons a xs)
  from foldl_closer_first_min [OF Cons, of c] obtain i where i: "i < length P"
    and res: "foldl (closer c) a xs = P ! i" by blast
  have "findClosestColor c (Some P) = foldl (closer c) a xs"
    by (simp add: findClosestColor_def Cons)
  with res nth_mem [OF i] show ?thesis by simp
qed

definition byteColor :: "color \<Rightarrow> bool" where
  "byteColor c =
     (case c of (r, g, b) \<Rightarrow> 0 \<le> r \<and> r \<le> 255 \<and> 0 \<le> g \<and> g \<le> 255 \<and> 0 \<le> b \<and> b \<le> 255)"

lemma byteColor_pixel: "byteColor (pixel img p)"
proof -
  have "0 \<le> uint w \<and> uint w \<le> 255" for w :: byte
    using uint_bounded [of w] by simp
  then show ?thesis by (simp add: byteColor_def pixel_def)
qed

lemma quantized_pixel:
  assumes wf: "wellFormed img" and p: "p < width img * height img"
    and pal: "list_all byteColor P"
  shows "pixel (scan img (processImage_cb (Some P))) p = findClosestColor (pixel img p) (Some P)"
proof -
  let ?c = "findClosestColor (pixel img p) (Some P)"
  have "byteColor ?c"
    using findClosestColor_cases [of "pixel img p" P] byteColor_pixel [of img p] pal
    by (auto simp: list_all_iff)
  then have bytes: "uint (word_of_int (fst ?c) :: byte) = fst ?c"
    "uint (word_of_int (fst (snd ?c)) :: byte) = fst (snd ?c)"
    "uint (word_of_int (snd (snd ?c)) :: byte) = snd (snd ?c)"
    by (auto simp: byteColor_def uint_byte split: prod.splits)
  have g: "quantizePixel (Some P) (data img ! (4 * p), data img ! (4 * p + 1), data img ! (4 * p + 2))
           = (word_of_int (fst ?c), word_of_int (fst (snd ?c)), word_of_int (snd (snd ?c)))"
    by (simp add: quantizePixel_def pixel_def Let_def)
  show ?thesis
    unfolding processImage_cb_pixelOp pixel_scan [where g = "quantizePixel (Some P)", OF wf p g] bytes
    by simp
qed

lemma vectori_lib_keeps_source:
  assumes "img < lim h"
  shows "objs (snd (vectori_lib_stages greyscale img P h)) img = objs h img
       \<and> greyscaleSource (fst (vectori_lib_stages greyscale img P h)) = objs h img"
  using assms by (simp add: vectori_lib_stages_def clone_def processImage_def Let_def)

text \<open>
  Claim C8. For a bitmap \<open>B\<close> (with the buffer size Jimp keeps) and a palette \<open>P\<close>,
  \<open>separateColors\<close> produces exactly \<open>length P\<close> layers, layer \<open>i\<close> for \<open>P ! i\<close>; each has
  the width and height of \<open>B\<close>, and in it a pixel whose three channels equal \<open>P ! i\<close> keeps
  its colour while every other pixel is white \<open>(255, 255, 255)\<close>.
\<close>

theorem separateColors_layers:
  assumes wf: "wellFormed B"
  shows "length (separateColors B P) = length P
       \<and> (\<forall>i < length P.
            width (separateColors B P ! i) = width B
          \<and> height (separateColors B P ! i) = height B
          \<and> (\<forall>p < width B * height B.
                pixel (separateColors B P ! i) p
                  = (if pixel B p = P ! i then pixel B p else (255, 255, 255))))"
proof (intro conjI allI impI)
  show "length (separateColors B P) = length P" by (simp add: separateColors_def)
next
  fix i assume i: "i < length P"
  then show "width (separateColors B P ! i) = width B"
    by (simp add: separateColors_def scan_def)
  from i show "height (separateColors B P ! i) = height B"
    by (simp add: separateColors_def scan_def)
  fix p assume p: "p < width B * height B"
  show "pixel (separateColors B P ! i) p
          = (if pixel B p = P ! i then pixel B p else (255, 255, 255))"
    by (rule separateColors_pixel [OF wf i p])
qed

theorem separateColors_layers_witness:
  "wellFormed source0
   \<and> length (separateColors source0 [(10, 20, 30), (1, 2, 3)]) = 2
   \<and> width (separateColors source0 [(10, 20, 30), (1, 2, 3)] ! 0) = 2
   \<and> pixel (separateColors source0 [(10, 20, 30), (1, 2, 3)] ! 0) 0 = (10, 20, 30)
   \<and> pixel (separateColors source0 [(10, 20, 30), (1, 2, 3)] ! 0) 1 = (255, 255, 255)
   \<and> pixel (separateColors source0 [(10, 20, 30), (1, 2, 3)] ! 1) 0 = (255, 255, 255)"
proof -
  let ?P = "[(10, 20, 30), (1, 2, 3)] :: color list"
  have wf: "wellFormed source0" by code_simp
  have w: "width source0 = 2" and h: "height source0 = 1" by code_simp+
  have px: "pixel source0 0 = (10, 20, 30)" "pixel source0 1 = (200, 200, 200)" by code_simp+
  note T = separateColors_layers [OF wf, of ?P]
  from T have len: "length (separateColors source0 ?P) = 2" by simp
  from T have layer: "width (separateColors source0 ?P ! i) = width source0
      \<and> (\<forall>p < width source0 * height source0.
            pixel (separateColors source0 ?P ! i) p
              = (if pixel source0 p = ?P ! i then pixel source0 p else (255, 255, 255)))"
    if "i < length ?P" for i using that by blast
  have l0: "width (separateColors source0 ?P ! 0) = 2"
    using layer [of 0] w by simp
  have p00: "pixel (separateColors source0 ?P ! 0) 0 = (10, 20, 30)"
    using layer [of 0] w h px by simp
  have p01: "pixel (separateColors source0 ?P ! 0) 1 = (255, 255, 255)"
    using layer [of 0] w h px by simp
  have p10: "pixel (separateColors source0 ?P ! 1) 0 = (255, 255, 255)"
    using layer [of 1] w h px by simp
  from wf len l0 p00 p01 p10 show ?thesis by blast
qed



text \<open>
  Claim C10. The three pixel passes store into the three colour bytes of a pixel only:
  after quantization, in every colour layer and in every luma band, the alpha byte of
  every pixel is the alpha byte of the source.
\<close>

theorem passes_keep_alpha:
  assumes wf: "wellFormed (objs h r)" and p: "p < width (objs h r) * height (objs h r)"
  shows "alpha (objs (snd (processImage r colorPalette h)) r) p = alpha (objs h r) p
       \<and> (\<forall>layer \<in> set (separateColors (objs h r) P). alpha layer p = alpha (objs h r) p)
       \<and> (\<forall>layer \<in> set (separateGreyscaleColors (objs h r) G). alpha layer p = alpha (objs h r) p)"
proof (intro conjI ballI)
  show "alpha (objs (snd (processImage r colorPalette h)) r) p = alpha (objs h r) p"
    using scan_pixelOp_pixel(5) [OF wf p]
    by (simp add: processImage_def processImage_cb_pixelOp)
next
  fix layer assume "layer \<in> set (separateColors (objs h r) P)"
  then obtain color where "layer = scan (objs h r) (pixelOp (separatePixel color))"
    by (auto simp: separateColors_def separateColors_cb_pixelOp)
  then show "alpha layer p = alpha (objs h r) p"
    using scan_pixelOp_pixel(5) [OF wf p] by simp
next
  fix layer assume "layer \<in> set (separateGreyscaleColors (objs h r) G)"
  then obtain tg where "layer = scan (objs h r) (pixelOp (bandPixel tg))"
    by (auto simp: separateGreyscaleColors_def separateGreyscaleColors_cb_pixelOp)
  then show "alpha layer p = alpha (objs h r) p"
    using scan_pixelOp_pixel(5) [OF wf p] by simp
qed

theorem passes_keep_alpha_witness:
  "wellFormed (objs heap0 0) \<and> (1::nat) < width (objs heap0 0) * height (objs heap0 0)
   \<and> alpha (objs heap0 0) 1 = 128
   \<and> alpha (objs (snd (processImage 0 (Some [(0, 0, 0)]) heap0)) 0) 1 = 128
   \<and> list_all (\<lambda>layer. alpha layer 1 = 128) (separateColors (objs heap0 0) [(0, 0, 0), (9, 9, 9)])
   \<and> list_all (\<lambda>layer. alpha layer 1 = 128) (separateGreyscaleColors (objs heap0 0) [''#c6c6c6''])"
proof -
  have wf: "wellFormed (objs heap0 0)" by code_simp
  have p: "(1::nat) < width (objs heap0 0) * height (objs heap0 0)" by code_simp
  have a: "alpha (objs heap0 0) 1 = 128" by code_simp
  from passes_keep_alpha [OF wf p, of "Some [(0, 0, 0)]" "[(0, 0, 0), (9, 9, 9)]" "[''#c6c6c6'']"]
    wf p a
  show ?thesis by (simp add: list_all_iff)
qed

text \<open>
  Claim C3, as amended. \<open>processImage\<close> returns the image it was given, quantized in
  place; it makes no clone. In \<open>vectori\<close> the source image itself is passed, so from step
  3 on that image holds the quantized bitmap: for a palette of byte colours every pixel is
  the closest palette colour of the source pixel. This bitmap is what the colour image
  encodes and what \<open>separateColors\<close> scans: layer \<open>i\<close> keeps exactly the pixels whose
  closest palette colour is \<open>P ! i\<close>.
\<close>

theorem vectori_reads_quantized:
  assumes wf: "wellFormed (objs h img)" and p: "p < width (objs h img) * height (objs h img)"
    and pal: "list_all byteColor P"
  shows "fst (processImage img (Some P) h) = img
       \<and> objs (snd (vectori_stages greyscale img P h)) img
           = colorImage (fst (vectori_stages greyscale img P h))
       \<and> pixel (colorImage (fst (vectori_stages greyscale img P h))) p
           = findClosestColor (pixel (objs h img) p) (Some P)
       \<and> (\<forall>i < length P.
            pixel (separatedColorImages (fst (vectori_stages greyscale img P h)) ! i) p
              = (if findClosestColor (pixel (objs h img) p) (Some P) = P ! i then P ! i
                 else (255, 255, 255)))"
proof -
  let ?q = "scan (objs h img) (processImage_cb (Some P))"
  have col: "colorImage (fst (vectori_stages greyscale img P h)) = ?q"
    and obj: "objs (snd (vectori_stages greyscale img P h)) img = ?q"
    and sep: "separatedColorImages (fst (vectori_stages greyscale img P h)) = separateColors ?q P"
    by (simp_all add: vectori_stages_def processImage_def Let_def)
  have wfq: "wellFormed ?q" using wf
    by (simp add: wellFormed_def processImage_cb_pixelOp scan_pixelOp_pixel(1,2,3) [OF wf p])
  have dims: "width ?q = width (objs h img)" "height ?q = height (objs h img)"
    by (simp_all add: scan_def)
  have q: "pixel ?q p = findClosestColor (pixel (objs h img) p) (Some P)"
    by (rule quantized_pixel [OF wf p pal])
  have layers: "\<forall>i < length P. pixel (separateColors ?q P ! i) p
                  = (if pixel ?q p = P ! i then pixel ?q p else (255, 255, 255))"
    using separateColors_pixel [OF wfq] p dims by simp
  show ?thesis
    unfolding col obj sep using q layers by (simp add: processImage_def)
qed

theorem vectori_reads_quantized_witness:
  "wellFormed (objs heap0 0) \<and> (0::nat) < width (objs heap0 0) * height (objs heap0 0)
   \<and> list_all byteColor [(0, 0, 0), (255, 255, 255)]
   \<and> pixel (objs heap0 0) 0 = (10, 20, 30)
   \<and> pixel (colorImage (fst (vectori_stages (\<lambda>b. b) 0 [(0, 0, 0), (255, 255, 255)] heap0))) 0
       = (0, 0, 0)
   \<and> pixel (separatedColorImages
              (fst (vectori_stages (\<lambda>b. b) 0 [(0, 0, 0), (255, 255, 255)] heap0)) ! 0) 0
       = (0, 0, 0)"
proof -
  let ?P = "[(0, 0, 0), (255, 255, 255)] :: color list"
  have wf: "wellFormed (objs heap0 0)" by code_simp
  have p: "(0::nat) < width (objs heap0 0) * height (objs heap0 0)" by code_simp
  have pal: "list_all byteColor ?P" by code_simp
  have src: "pixel (objs heap0 0) 0 = (10, 20, 30)" by code_simp
  have fc: "findClosestColor (10, 20, 30) (Some ?P) = (0, 0, 0)"
    by code_simp
  note T = vectori_reads_quantized [OF wf p pal, of "\<lambda>b. b"]
  from T src fc
  have c: "pixel (colorImage (fst (vectori_stages (\<lambda>b. b) 0 ?P heap0))) 0 = (0, 0, 0)"
    by simp
  from T have "\<forall>i < length ?P.
      pixel (separatedColorImages (fst (vectori_stages (\<lambda>b. b) 0 ?P heap0)) ! i) 0
        = (if findClosestColor (pixel (objs heap0 0) 0) (Some ?P) = ?P ! i then ?P ! i
           else (255, 255, 255))"
    by blast
  then have "pixel (separatedColorImages (fst (vectori_stages (\<lambda>b. b) 0 ?P heap0)) ! 0) 0
        = (if findClosestColor (pixel (objs heap0 0) 0) (Some ?P) = ?P ! 0 then ?P ! 0
           else (255, 255, 255))"
    by simp
  with src fc
  have l: "pixel (separatedColorImages (fst (vectori_stages (\<lambda>b. b) 0 ?P heap0)) ! 0) 0
        = (0, 0, 0)"
    by simp
  from wf p pal src c l show ?thesis by blast
qed

text \<open>
  Claim C3 as stated fails: after \<open>processImage\<close> the source image no longer holds its
  pixels, and the stages that follow read the quantized bitmap, not the source. On the
  source itself the colour separation would give other layers.
\<close>

theorem vectori_source_modified:
  "pixel (objs heap0 0) 0 = (10, 20, 30)
   \<and> pixel (objs (snd (processImage 0 (Some [(0, 0, 0), (255, 255, 255)]) heap0)) 0) 0 = (0, 0, 0)
   \<and> greyscaleSource (fst (vectori_stages (\<lambda>b. b) 0 [(0, 0, 0), (255, 255, 255)] heap0))
       \<noteq> objs heap0 0
   \<and> separatedColorImages (fst (vectori_stages (\<lambda>b. b) 0 [(0, 0, 0), (255, 255, 255)] heap0))
       \<noteq> separateColors (objs heap0 0) [(0, 0, 0), (255, 255, 255)]"
  by code_simp

text \<open>
  The greyscale conversion and the luma separation of \<open>vectori\<close> read the same quantized
  bitmap. The second copy quantizes a clone and keeps the source; its colour separation
  then scans the unquantized source, where a pixel equals a palette colour only by
  chance: in the two-pixel instance both of its layers are entirely white.
\<close>

lemma vectori_greyscale_source:
  "greyscaleSource (fst (vectori_stages greyscale img P h))
     = colorImage (fst (vectori_stages greyscale img P h))"
  by (simp add: vectori_stages_def processImage_def Let_def)

lemma vectori_lib_layers_example:
  "separatedColorImages (fst (vectori_lib_stages (\<lambda>b. b) 0 [(0, 0, 0), (255, 255, 255)] heap0))
     = [\<lparr>width = 2, height = 1, data = [255, 255, 255, 255, 255, 255, 255, 128]\<rparr>,
        \<lparr>width = 2, height = 1, data = [255, 255, 255, 255, 255, 255, 255, 128]\<rparr>]"
  by code_simp

section \<open>The trace batch\<close>

text \<open>
  \<open>Promise.all\<close> (ECMAScript): one slot per input promise and a count of the promises
  still awaited. When promise \<open>i\<close> is fulfilled its value is stored in slot \<open>i\<close> and the
  count goes down; at zero the result is fulfilled with the slots, in index order. When a
  promise is rejected the result is rejected with its reason. A result that is already
  settled ignores what happens later. The order in which the promises settle is not
  fixed by the program; it is the parameter \<open>order\<close>, a list of indices (an index
  that names no promise is skipped). The result is \<open>None\<close> while the batch is pending.
\<close>

record 'a gather =
  slots :: "'a option list"
  remaining :: nat
  outcome :: "(error + 'a list) option"

definition settle :: "nat \<Rightarrow> error + 'a \<Rightarrow> 'a gather \<Rightarrow> 'a gather" where
  "settle i res g =
     (case outcome g of
        Some settled \<Rightarrow> g
      | None \<Rightarrow>
          (case res of
             Inl e \<Rightarrow> g\<lparr>outcome := Some (Inl e)\<rparr>
           | Inr v \<Rightarrow>
               let vs = (slots g)[i := Some v]; n = remaining g - 1
               in g\<lparr>slots := vs, remaining := n,
                    outcome := (if n = 0 then map_option Inr (those vs) else None)\<rparr>))"

definition promiseAll :: "(error + 'a) list \<Rightarrow> nat list \<Rightarrow> (error + 'a list) option" where
  "promiseAll results order =
     (if results = [] then Some (Inr [])
      else outcome (foldl (\<lambda>g i. settle i (results ! i) g)
                      \<lparr>slots = replicate (length results) None,
                       remaining = length results, outcome = None\<rparr>
                      (filter (\<lambda>i. i < length results) order)))"

text \<open>
  \<open>traceImagesToSvgs\<close>: promise \<open>i\<close> decodes the text after the first comma of image
  \<open>i\<close> (\<open>Buffer.from(undefined, "base64")\<close> throws a \<open>TypeError\<close> inside the executor,
  which rejects the promise) and hands it to the tracer with \<open>colorPallet[i]\<close>, which is
  \<open>undefined\<close> past the end of the palette. The tracer is the external collaborator: a
  parameter that gives the arguments of the callback, an error or the SVG text.
\<close>

definition payload :: "string \<Rightarrow> string option" where
  "payload base64Image =
     (case splitOn CHR '','' base64Image of a # b # rest \<Rightarrow> Some b | _ \<Rightarrow> None)"

definition colorAt :: "string list \<Rightarrow> nat \<Rightarrow> string option" where
  "colorAt colorPallet i = (if i < length colorPallet then Some (colorPallet ! i) else None)"

definition tracePromise ::
    "(string \<Rightarrow> string option \<Rightarrow> error + string) \<Rightarrow> string list \<Rightarrow> string list \<Rightarrow> nat
      \<Rightarrow> error + string" where
  "tracePromise trace images colorPallet i =
     (case payload (images ! i) of
        None \<Rightarrow> Inl TypeError
      | Some b \<Rightarrow> trace b (colorAt colorPallet i))"

definition traceImagesToSvgs ::
    "(string \<Rightarrow> string option \<Rightarrow> error + string) \<Rightarrow> string list \<Rightarrow> string list \<Rightarrow> nat list
      \<Rightarrow> (error + string list) option" where
  "traceImagesToSvgs trace images colorPallet order =
     promiseAll (map (tracePromise trace images colorPallet)
                   [0..<length images]) order"

text \<open>
  In \<open>vectori\<close> the batch is awaited and its fragments are merged: a rejected batch
  rejects \<open>vectori\<close>, and \<open>mergeSvgs\<close> is not reached.
\<close>

definition tracedAndMerged ::
    "(string \<Rightarrow> string option \<Rightarrow> error + string) \<Rightarrow> string list \<Rightarrow> string list \<Rightarrow> nat list
      \<Rightarrow> (error + string list \<times> document) option" where
  "tracedAndMerged trace images colorPallet order =
     (case traceImagesToSvgs trace images colorPallet order of
        None \<Rightarrow> None
      | Some (Inl e) \<Rightarrow> Some (Inl e)
      | Some (Inr separatedColorSvgs) \<Rightarrow>
          Some (Inr (separatedColorSvgs, mergeSvgs separatedColorSvgs)))"

section \<open>Properties of the trace batch\<close>

lemma settled_stays:
  "outcome g = Some x \<Longrightarrow> outcome (foldl (\<lambda>g i. settle i (results ! i) g) g order) = Some x"
  by (induction order arbitrary: g) (simp_all add: settle_def)

lemma those_map_Some: "those (map Some vs) = Some vs"
  by (induction vs) simp_all

lemma distinct_length_less:
  assumes "distinct xs" and "set xs \<subseteq> {0..<n}" and "i < n" and "i \<notin> set xs"
  shows "length xs < n"
proof -
  have "set xs \<subseteq> {0..<n} - {i}" using assms by auto
  then have "card (set xs) \<le> card ({0..<n} - {i})" by (intro card_mono) auto
  also have "\<dots> = n - 1" using assms(3) by simp
  finally show ?thesis using assms(1,3) by (simp add: distinct_card)
qed

lemma fulfilled_prefix:
  assumes "distinct done" and "set done \<subseteq> {0..<length results}"
    and "\<forall>i \<in> set done. \<exists>v. results ! i = Inr v"
    and "length done < length results"
  shows "foldl (\<lambda>g i. settle i (results ! i) g)
           \<lparr>slots = replicate (length results) None, remaining = length results, outcome = None\<rparr>
           done
         = \<lparr>slots = map (\<lambda>j. if j \<in> set done then (case results ! j of Inr v \<Rightarrow> Some v | Inl e \<Rightarrow> None) else None)
                         [0..<length results],
            remaining = length results - length done, outcome = None\<rparr>"
  using assms
proof (induction "done" rule: rev_induct)
  case Nil
  show ?case by (simp add: map_replicate_const)
next
  case (snoc i "done")
  let ?n = "length results"
  from snoc.prems have d: "distinct done" and s: "set done \<subseteq> {0..<?n}"
    and f: "\<forall>i \<in> set done. \<exists>v. results ! i = Inr v" and l: "length done < ?n"
    and i: "i < ?n" "i \<notin> set done" and l2: "Suc (length done) < ?n"
    by auto
  from snoc.prems(3) obtain v where v: "results ! i = Inr v" by auto
  have upd: "(map (\<lambda>j. if j \<in> set done then (case results ! j of Inr v \<Rightarrow> Some v | Inl e \<Rightarrow> None) else None) [0..<?n])[i := Some v]
           = map (\<lambda>j. if j \<in> set (done @ [i]) then (case results ! j of Inr v \<Rightarrow> Some v | Inl e \<Rightarrow> None) else None) [0..<?n]"
    using i v by (intro nth_equalityI) (auto simp: nth_list_update)
  show ?case
    using snoc.IH [OF d s f l] v l2 upd
    by (simp add: settle_def Let_def)
qed

lemma promiseAll_fulfilled:
  assumes "distinct order" and "set order = {0..<length vs}"
  shows "promiseAll (map Inr vs) order = Some (Inr vs)"
proof (cases "vs = []")
  case True
  then show ?thesis by (simp add: promiseAll_def)
next
  case False
  let ?results = "map Inr vs :: (error + 'a) list"
  let ?n = "length ?results"
  from False assms obtain "done" i where order: "order = done @ [i]"
    by (cases order rule: rev_cases) auto
  from assms order have d: "distinct done" and s: "set done \<subseteq> {0..<?n}"
    and i: "i < ?n" "i \<notin> set done" by auto
  have f: "\<forall>i \<in> set done. \<exists>v. ?results ! i = Inr v" using s by auto
  have l: "length done < ?n" using distinct_length_less [OF d s i] .
  have len: "length order = length vs"
    using assms by (metis card_atLeastLessThan diff_zero distinct_card)
  then have rem: "?n - length done = Suc 0" unfolding order by simp
  have all: "\<And>j. j < length vs \<Longrightarrow> j \<in> set (done @ [i])"
    using assms(2) order by auto
  have upd: "(map (\<lambda>j. if j \<in> set done then (case ?results ! j of Inr v \<Rightarrow> Some v | Inl e \<Rightarrow> None) else None) [0..<?n])[i := Some (vs ! i)]
           = map Some vs"
    using i all by (intro nth_equalityI) (auto simp: nth_list_update)
  have flt: "filter (\<lambda>i. i < length vs) order = order"
    using assms(2) by (auto simp: filter_id_conv)
  have "promiseAll (map Inr vs) order
        = outcome (foldl (\<lambda>g i. settle i (?results ! i) g)
                     \<lparr>slots = replicate ?n None, remaining = ?n, outcome = None\<rparr> (done @ [i]))"
    using False flt by (simp add: promiseAll_def order)
  also have "\<dots> = Some (Inr vs)"
    using fulfilled_prefix [OF d s f l] i rem upd
    by (simp add: settle_def Let_def those_map_Some)
  finally show ?thesis .
qed

lemma promiseAll_rejected:
  assumes "distinct order" and "set order = {0..<length results}"
    and "k < length results" and "results ! k = Inl e0"
  shows "\<exists>j e. j < length results \<and> results ! j = Inl e \<and> promiseAll results order = Some (Inl e)"
proof -
  let ?n = "length results"
  let ?bad = "\<lambda>i. \<exists>e. results ! i = Inl e"
  have "k \<in> set order" using assms by auto
  then have "\<exists>i \<in> set order. ?bad i" using assms(4) by blast
  then obtain "done" i rest where order: "order = done @ i # rest"
    and bad: "?bad i" and good: "\<forall>j \<in> set done. \<not> ?bad j"
    using split_list_first_prop [of order ?bad] by blast
  from bad obtain e where e: "results ! i = Inl e" by blast
  from assms order have d: "distinct done" and s: "set done \<subseteq> {0..<?n}"
    and i: "i < ?n" "i \<notin> set done" by auto
  have f: "\<forall>j \<in> set done. \<exists>v. results ! j = Inr v"
    using good by (metis sum.exhaust)
  have l: "length done < ?n" using distinct_length_less [OF d s i] .
  have ne: "results \<noteq> []" using assms(3) by auto
  let ?g = "foldl (\<lambda>g i. settle i (results ! i) g)
           \<lparr>slots = replicate ?n None, remaining = ?n, outcome = None\<rparr> (done @ [i])"
  have "outcome ?g = Some (Inl e)"
    using fulfilled_prefix [OF d s f l] e by (simp add: settle_def)
  from settled_stays [OF this, of results rest]
  have after: "outcome (foldl (\<lambda>g i. settle i (results ! i) g)
           \<lparr>slots = replicate ?n None, remaining = ?n, outcome = None\<rparr> order) = Some (Inl e)"
    by (simp add: order)
  have flt: "filter (\<lambda>i. i < ?n) order = order"
    using assms(2) by (auto simp: filter_id_conv)
  have "promiseAll results order = Some (Inl e)"
    using ne after unfolding promiseAll_def flt by simp
  with i e show ?thesis by blast
qed

text \<open>
  Claim C7. For a batch of \<open>N\<close> trace calls that settle in any order (\<open>order\<close> lists
  each call once): if call \<open>i\<close> succeeds with \<open>svgs ! i\<close> for every \<open>i\<close>, the batch returns
  exactly \<open>svgs\<close>, \<open>N\<close> fragments with fragment \<open>i\<close> traced from image \<open>i\<close> with colour
  \<open>i\<close>, whatever the order; if some call fails, the batch fails with the error of a failed
  call, and neither a fragment list nor a merged document is produced.
\<close>

theorem traceImagesToSvgs_batch:
  assumes "distinct order" and "set order = {0..<length images}"
  shows "(length svgs = length images
            \<and> (\<forall>i < length images. tracePromise trace images colorPallet i = Inr (svgs ! i))
          \<longrightarrow> traceImagesToSvgs trace images colorPallet order = Some (Inr svgs))
       \<and> ((\<exists>i < length images. \<exists>e. tracePromise trace images colorPallet i = Inl e)
          \<longrightarrow> (\<exists>j e. j < length images \<and> tracePromise trace images colorPallet j = Inl e
                 \<and> traceImagesToSvgs trace images colorPallet order = Some (Inl e)
                 \<and> tracedAndMerged trace images colorPallet order = Some (Inl e)))"
proof (intro conjI impI)
  assume ok: "length svgs = length images
            \<and> (\<forall>i < length images. tracePromise trace images colorPallet i = Inr (svgs ! i))"
  then have "map (tracePromise trace images colorPallet) [0..<length images] = map Inr svgs"
    by (intro nth_equalityI) auto
  moreover have "set order = {0..<length svgs}" using assms(2) ok by simp
  ultimately show "traceImagesToSvgs trace images colorPallet order = Some (Inr svgs)"
    using promiseAll_fulfilled [OF assms(1), of svgs] by (simp add: traceImagesToSvgs_def)
next
  let ?results = "map (tracePromise trace images colorPallet) [0..<length images]"
  assume "\<exists>i < length images. \<exists>e. tracePromise trace images colorPallet i = Inl e"
  then obtain k e0 where k: "k < length ?results" and e0: "?results ! k = Inl e0" by auto
  have ord: "set order = {0..<length ?results}" using assms(2) by simp
  from promiseAll_rejected [OF assms(1) ord k e0]
  obtain j e where "j < length ?results" "?results ! j = Inl e"
    "promiseAll ?results order = Some (Inl e)" by blast
  then show "\<exists>j e. j < length images \<and> tracePromise trace images colorPallet j = Inl e
                 \<and> traceImagesToSvgs trace images colorPallet order = Some (Inl e)
                 \<and> tracedAndMerged trace images colorPallet order = Some (Inl e)"
    by (auto simp: traceImagesToSvgs_def tracedAndMerged_def)
qed


text \<open>A tracer for the concrete instance below: it fails on one payload.\<close>

definition trace0 :: "string \<Rightarrow> string option \<Rightarrow> error + string" where
  \<open>trace0 b color =
     (if b = ''BAD'' then Inl (TraceError ''no image'')
      else Inr (''<svg viewBox="0 0 2 1">'' @ b
                @ (case color of Some c \<Rightarrow> c | None \<Rightarrow> []) @ ''</svg>''))\<close>

theorem traceImagesToSvgs_batch_witness:
  \<open>distinct [1, 0 :: nat]
   \<and> set [1, 0 :: nat] = {0..<length [''data:image/png;base64,AAAA'', ''data:image/png;base64,BBBB'']}
   \<and> traceImagesToSvgs trace0 [''data:image/png;base64,AAAA'', ''data:image/png;base64,BBBB'']
         [''#ff0000'', ''#00ff00''] [1, 0]
       = Some (Inr [''<svg viewBox="0 0 2 1">AAAA#ff0000</svg>'',
                    ''<svg viewBox="0 0 2 1">BBBB#00ff00</svg>''])
   \<and> (\<exists>e. tracedAndMerged trace0 [''data:image/png;base64,AAAA'', ''data:image/png;base64,BAD'']
         [''#ff0000'', ''#00ff00''] [1, 0] = Some (Inl e))\<close>
proof -
  let ?ok = "[''data:image/png;base64,AAAA'', ''data:image/png;base64,BBBB'']"
  let ?bad = "[''data:image/png;base64,AAAA'', ''data:image/png;base64,BAD'']"
  let ?pal = "[''#ff0000'', ''#00ff00'']"
  let ?svgs = \<open>[''<svg viewBox="0 0 2 1">AAAA#ff0000</svg>'',
                ''<svg viewBox="0 0 2 1">BBBB#00ff00</svg>'']\<close>
  have d: "distinct [1, 0 :: nat]" by simp
  have s1: "set [1, 0 :: nat] = {0..<length ?ok}" by auto
  have s2: "set [1, 0 :: nat] = {0..<length ?bad}" by auto
  have c0: "tracePromise trace0 ?ok ?pal 0 = Inr (?svgs ! 0)" by code_simp
  have c1: "tracePromise trace0 ?ok ?pal 1 = Inr (?svgs ! 1)" by code_simp
  have f1: "tracePromise trace0 ?bad ?pal 1 = Inl (TraceError ''no image'')" by code_simp
  have all: "length ?svgs = length ?ok
             \<and> (\<forall>i < length ?ok. tracePromise trace0 ?ok ?pal i = Inr (?svgs ! i))"
    using c0 c1 by (simp add: less_Suc_eq)
  have some: "\<exists>i < length ?bad. \<exists>e. tracePromise trace0 ?bad ?pal i = Inl e"
    using f1 by (intro exI [of _ 1]) simp
  from traceImagesToSvgs_batch [OF d s1, of ?svgs trace0 ?pal] all
  have ok: "traceImagesToSvgs trace0 ?ok ?pal [1, 0] = Some (Inr ?svgs)" by blast
  from traceImagesToSvgs_batch [OF d s2, of ?svgs trace0 ?pal] some
  have bad: "\<exists>e. tracedAndMerged trace0 ?bad ?pal [1, 0] = Some (Inl e)" by blast
  from d s1 ok bad show ?thesis by blast
qed

end
